theory Spec2Isabelle
  imports Complex_Main "HOL-Library.AList" "HOL-Library.Sublist"
begin

section \<open>Subnet import of the mreg command line client\<close>

text \<open>
  The development embeds \<^verbatim>\<open>Subnet.opt_import\<close> of \<^verbatim>\<open>commands.py\<close>
  (lines 1089 to 1197): reading the import file, the diff against the subnets of the
  server, the three checks before the requests, and the three request loops.

  Conventions of the embedding.
  \<^item> A Python \<^verbatim>\<open>str\<close> is a \<open>string\<close>; characters are code points below 256.
  \<^item> A \<^verbatim>\<open>dict\<close> is an association list in insertion order, written with
    \<open>AList.update\<close>, which overwrites in place as Python does.
  \<^item> A \<^verbatim>\<open>set\<close> of keys is a duplicate-free list. Python leaves the iteration
    order of a set open; the lists below take the order of the dictionary the keys come
    from, which is one of the orders Python may choose. What is proved about the members
    of a set is stated on \<open>set\<close> of its list.
  \<^item> An exception is a value \<open>Inl (e, s)\<close>: the error and the state at the raise.
  \<^item> What \<^verbatim>\<open>opt_import\<close> obtains from outside \<^verbatim>\<open>commands.py\<close> (configuration,
    the file, the server's answers, the tag validators, Python's \<^verbatim>\<open>ipaddress\<close>) is a
    field of the record \<open>env\<close>.
  \<^item> The file can be read and the server answers \<^verbatim>\<open>GET /subnets\<close> with a list of
    subnets that have the keys read here; a missing file, an unreachable server or a
    missing entry of \<^verbatim>\<open>conf\<close> is not part of the embedding.
\<close>

subsection \<open>Data\<close>

text \<open>
  One subnet as a dictionary with the keys that \<^verbatim>\<open>opt_import\<close> reads or writes.
  \<^verbatim>\<open>None\<close> is \<open>None\<close>. The same type serves for the records built from the file
  (line 1119) and for the records of the server (line 1132), whose further keys are
  never read.
\<close>

record subnet =
  range_str :: string
  description :: string
  vlan :: "int option"
  category :: "string option"
  location :: "string option"
  frozen :: bool

datatype pyval = PyNone | PyStr string | PyInt int | PyBool bool

text \<open>A request to the server: the verb, the URL and the keyword arguments.\<close>

datatype api_call =
  DELETE string
| POST string "(string \<times> pyval) list"
| PATCH string "(string \<times> pyval) list"

datatype error =
  TypeError
| ValueError string
| KeyError string
| ZeroDivisionError
| CliWarning string
| RequestFailed api_call

record 'n env =
  server_ip :: string
  server_port :: string
  tag_file :: string
  prompt_reply :: string
  read_lines :: "string \<Rightarrow> string list"
  get_vlan_mapping :: "string \<rightharpoonup> int"
  is_valid_location_tag :: "string \<Rightarrow> bool"
  is_valid_category_tag :: "string \<Rightarrow> bool"
  res :: "subnet list"
  get_subnet_used_list :: "string \<Rightarrow> string list"
  ip_network :: "string \<Rightarrow> 'n option"
  overlaps :: "'n \<Rightarrow> 'n \<Rightarrow> bool"
  request_ok :: "api_call list \<Rightarrow> api_call \<Rightarrow> bool"

text \<open>
  The fields of \<open>env\<close>:
  \<^item> \<open>server_ip\<close>, \<open>server_port\<close>, \<open>tag_file\<close>: the entries of \<^verbatim>\<open>conf\<close>;
  \<^item> \<open>prompt_reply\<close>: what \<^verbatim>\<open>input()\<close> returns; \<open>read_lines\<close>: the lines of the
    file at a path, each with its line end;
  \<^item> \<open>res\<close>: the JSON list answered to \<^verbatim>\<open>GET /subnets\<close>;
  \<^item> \<open>ip_network s\<close> is \<open>None\<close> where \<^verbatim>\<open>ipaddress.ip_network(s)\<close> raises
    ValueError; \<open>overlaps\<close> is the method of the same name;
  \<^item> \<open>request_ok done c\<close>: whether the helper \<^verbatim>\<open>delete\<close>, \<^verbatim>\<open>post\<close> or
    \<^verbatim>\<open>patch\<close> returns for the request \<open>c\<close> issued after the requests \<open>done\<close>
    (otherwise it raises).
\<close>

text \<open>The variables of \<^verbatim>\<open>opt_import\<close> that are assigned more than once.\<close>

record state =
  ERROR :: bool
  log_file :: "string list"
  import_data :: "(string \<times> subnet) list"
  subnets_patch :: "string list"
  requests :: "api_call list"

type_synonym result = "error \<times> state + state"

subsection \<open>Strings\<close>

definition nl :: string where
  "nl = [CHR 0x0A]"

text \<open>What \<^verbatim>\<open>str.isspace\<close> and the class \<^verbatim>\<open>\s\<close> accept below code point 256.\<close>

definition is_space :: "char \<Rightarrow> bool" where
  "is_space c \<longleftrightarrow> c \<in> set [CHR '' '', CHR 0x09, CHR 0x0A, CHR 0x0B, CHR 0x0C, CHR 0x0D,
     CHR 0x1C, CHR 0x1D, CHR 0x1E, CHR 0x1F, CHR 0x85, CHR 0xA0]"

definition is_digit :: "char \<Rightarrow> bool" where
  "is_digit c \<longleftrightarrow> c \<in> set ''0123456789''"

definition strip :: "string \<Rightarrow> string" where
  "strip s = rev (dropWhile is_space (rev (dropWhile is_space s)))"

text \<open>\<^verbatim>\<open>s.split(c)\<close>: the pieces between the occurrences of \<open>c\<close>, never an empty list.\<close>

fun split_on :: "char \<Rightarrow> string \<Rightarrow> string list" where
  "split_on c [] = [[]]"
| "split_on c (x # xs) =
     (if x = c then [] # split_on c xs
      else (case split_on c xs of [] \<Rightarrow> [[x]] | p # ps \<Rightarrow> (x # p) # ps))"

fun str_nat :: "nat \<Rightarrow> string" where
  "str_nat n = (if n < 10 then [''0123456789'' ! n]
                else str_nat (n div 10) @ [''0123456789'' ! (n mod 10)])"

declare str_nat.simps [simp del]

subsection \<open>The regular expression of line 1107\<close>

text \<open>
  \<^verbatim>\<open>(?P<range>\d+.\d+.\d+.\d+\/\d+)\s+:(?P<tags>.*):\|(?P<description>.*)\<close>
  is a sequence of character classes, each taken once, once or more (\<^verbatim>\<open>+\<close>) or any
  number of times (\<^verbatim>\<open>*\<close>). \<open>bt\<close> is the backtracking matcher of \<^verbatim>\<open>re.match\<close> for
  such a sequence: it starts at the head of the string, a repetition takes the longest
  run first and gives characters back one at a time, and the match need not reach the end
  of the string. It returns the text taken by each item.
\<close>

datatype cls = Digit | Dot | Space | Lit char

fun cls_ok :: "cls \<Rightarrow> char \<Rightarrow> bool" where
  "cls_ok Digit c = is_digit c"
| "cls_ok Dot c = (c \<noteq> CHR 0x0A)"
| "cls_ok Space c = is_space c"
| "cls_ok (Lit d) c = (c = d)"

datatype quant = Once | Plus | Star

fun give_back :: "(string \<Rightarrow> string list option) \<Rightarrow> nat \<Rightarrow> nat \<Rightarrow> string \<Rightarrow> string list option" where
  "give_back k lo 0 s =
     (if lo = 0 then (case k s of Some ps \<Rightarrow> Some ([] # ps) | None \<Rightarrow> None) else None)"
| "give_back k lo (Suc n) s =
     (if Suc n < lo then None
      else (case k (drop (Suc n) s) of
              Some ps \<Rightarrow> Some (take (Suc n) s # ps)
            | None \<Rightarrow> give_back k lo n s))"

primrec bt :: "(cls \<times> quant) list \<Rightarrow> string \<Rightarrow> string list option" where
  "bt [] = (\<lambda>s. Some [])"
| "bt (i # is) = (\<lambda>s.
     (case snd i of
        Once \<Rightarrow> (case s of
                   [] \<Rightarrow> None
                 | x # xs \<Rightarrow> if cls_ok (fst i) x
                             then (case bt is xs of Some ps \<Rightarrow> Some ([x] # ps) | None \<Rightarrow> None)
                             else None)
      | Plus \<Rightarrow> give_back (bt is) 1 (length (takeWhile (cls_ok (fst i)) s)) s
      | Star \<Rightarrow> give_back (bt is) 0 (length (takeWhile (cls_ok (fst i)) s)) s))"

definition range_re :: "(cls \<times> quant) list" where
  "range_re = [(Digit, Plus), (Dot, Once), (Digit, Plus), (Dot, Once), (Digit, Plus),
               (Dot, Once), (Digit, Plus), (Lit CHR ''/'', Once), (Digit, Plus)]"

definition line_re :: "(cls \<times> quant) list" where
  "line_re = range_re @ [(Space, Plus), (Lit CHR '':'', Once), (Dot, Star),
                         (Lit CHR '':'', Once), (Lit CHR ''|'', Once), (Dot, Star)]"

text \<open>The groups \<^verbatim>\<open>range\<close>, \<^verbatim>\<open>tags\<close> and \<^verbatim>\<open>description\<close> of a match.\<close>

definition re_match :: "string \<Rightarrow> (string \<times> string \<times> string) option" where
  "re_match line =
     (case bt line_re line of
        None \<Rightarrow> None
      | Some ps \<Rightarrow> Some (concat (take (length range_re) ps),
                         ps ! (length range_re + 2),
                         ps ! (length range_re + 5)))"

subsection \<open>Reading the file (lines 1099 to 1129)\<close>

primrec for_loop :: "('a \<Rightarrow> state \<Rightarrow> result) \<Rightarrow> 'a list \<Rightarrow> state \<Rightarrow> result" where
  "for_loop body [] s = Inr s"
| "for_loop body (x # xs) s =
     (case body x s of Inl e \<Rightarrow> Inl e | Inr s' \<Rightarrow> for_loop body xs s')"

definition log_write :: "string \<Rightarrow> state \<Rightarrow> state" where
  "log_write text s = s\<lparr>log_file := log_file s @ [text]\<rparr>"

text \<open>
  The loop over the tags of one line (lines 1111 to 1118). The accumulator is
  \<^verbatim>\<open>info\<close>, as the pair of its \<^verbatim>\<open>location\<close> and its \<^verbatim>\<open>category\<close>, and the lines
  written to the log.
\<close>

definition invalid_tag :: "'n env \<Rightarrow> nat \<Rightarrow> string \<Rightarrow> string" where
  "invalid_tag env line_number tag =
     str_nat line_number @ '': Invalid tag '' @ tag @ ''. Valid tags can be found in ''
       @ tag_file env @ nl"

fun tag_loop :: "'n env \<Rightarrow> nat \<Rightarrow> string list \<Rightarrow> (string option \<times> string) \<times> string list
                  \<Rightarrow> (string option \<times> string) \<times> string list" where
  "tag_loop env line_number [] acc = acc"
| "tag_loop env line_number (tag # tags) ((loc, cat), out) =
     tag_loop env line_number tags
       (if is_valid_location_tag env tag then ((Some tag, cat), out)
        else if is_valid_category_tag env tag then ((loc, strip (cat @ '' '' @ tag)), out)
        else ((loc, cat), out @ [invalid_tag env line_number tag]))"

definition truthy :: "string option \<Rightarrow> string option" where
  "truthy v = (case v of None \<Rightarrow> None | Some t \<Rightarrow> if t = [] then None else Some t)"

text \<open>The record of a matching line (lines 1119 to 1126).\<close>

definition line_data :: "'n env \<Rightarrow> string \<Rightarrow> string \<Rightarrow> (string option \<times> string) \<Rightarrow> subnet" where
  "line_data env rng descr info =
     \<lparr>range_str = rng,
      description = strip descr,
      vlan = Some (case get_vlan_mapping env rng of Some v \<Rightarrow> v | None \<Rightarrow> 0),
      category = truthy (Some (snd info)),
      location = truthy (fst info),
      frozen = False\<rparr>"

definition read_line :: "'n env \<Rightarrow> nat \<times> string \<Rightarrow> state \<Rightarrow> result" where
  "read_line env nline s =
     (case re_match (snd nline) of
        None \<Rightarrow> Inr s
      | Some (rng, tags, descr) \<Rightarrow>
          (let (info, out) = tag_loop env (fst nline) (split_on CHR '':'' tags) ((None, []), [])
           in Inr (s\<lparr>log_file := log_file s @ out,
                     import_data := AList.update rng (line_data env rng descr info) (import_data s)\<rparr>)))"

definition numbered :: "string list \<Rightarrow> (nat \<times> string) list" where
  "numbered ls = zip [1 ..< Suc (length ls)] ls"

definition read_file :: "'n env \<Rightarrow> string \<Rightarrow> state \<Rightarrow> result" where
  "read_file env input_file s =
     (case for_loop (read_line env) (numbered (read_lines env input_file))
             (log_write (''------ READ FROM '' @ input_file @ '' START ------'' @ nl) s) of
        Inl e \<Rightarrow> Inl e
      | Inr s' \<Rightarrow> Inr (log_write (''------ READ FROM '' @ input_file @ '' END ------'' @ nl) s'))"

subsection \<open>The diff (lines 1132 to 1138)\<close>

text \<open>\<^verbatim>\<open>{subnet['range']: subnet for subnet in res}\<close>\<close>

definition current_subnets :: "'n env \<Rightarrow> (string \<times> subnet) list" where
  "current_subnets env = fold (\<lambda>subnet d. AList.update (range_str subnet) subnet d) (res env) []"

definition keys :: "(string \<times> 'v) list \<Rightarrow> string list" where
  "keys d = map fst d"

definition subnets_delete :: "(string \<times> subnet) list \<Rightarrow> (string \<times> subnet) list \<Rightarrow> string list" where
  "subnets_delete cur imp = filter (\<lambda>k. k \<notin> set (keys imp)) (keys cur)"

definition subnets_post :: "(string \<times> subnet) list \<Rightarrow> (string \<times> subnet) list \<Rightarrow> string list" where
  "subnets_post cur imp = filter (\<lambda>k. k \<notin> set (keys cur)) (keys imp)"

definition subnets_ignore :: "(string \<times> subnet) list \<Rightarrow> (string \<times> subnet) list \<Rightarrow> string list" where
  "subnets_ignore cur imp = filter (\<lambda>k. k \<in> set (keys cur)) (keys imp)"

text \<open>\<^verbatim>\<open>d[k]\<close>, which raises KeyError for a key that \<open>d\<close> does not have.\<close>

definition getitem :: "(string \<times> 'v) list \<Rightarrow> string \<Rightarrow> state \<Rightarrow> error \<times> state + 'v" where
  "getitem d k s = (case map_of d k of None \<Rightarrow> Inl (KeyError k, s) | Some v \<Rightarrow> Inr v)"

definition set_add :: "string \<Rightarrow> string list \<Rightarrow> string list" where
  "set_add k ks = (if k \<in> set ks then ks else ks @ [k])"

subsection \<open>The checks (lines 1140 to 1170)\<close>

text \<open>
  Lines 1141 to 1146. When the list of used addresses is not empty, \<^verbatim>\<open>ERROR\<close> is set
  and the argument of \<^verbatim>\<open>format\<close> is evaluated: \<^verbatim>\<open>subnet['range']\<close>, where
  \<^verbatim>\<open>subnet\<close> is a key of \<^verbatim>\<open>current_subnets\<close>, a \<^verbatim>\<open>str\<close>. Indexing a
  \<^verbatim>\<open>str\<close> with a \<^verbatim>\<open>str\<close> raises TypeError, before \<^verbatim>\<open>log_file.write\<close> is called.
\<close>

definition in_use_body :: "'n env \<Rightarrow> string \<Rightarrow> state \<Rightarrow> result" where
  "in_use_body env subnet s =
     (let used_list = get_subnet_used_list env subnet
      in if used_list \<noteq> [] then Inl (TypeError, s\<lparr>ERROR := True\<rparr>) else Inr s)"

text \<open>Lines 1149 to 1154. The inner loop runs over \<^verbatim>\<open>subnets_patch\<close> as it is then.\<close>

definition overlap_inner :: "'n env \<Rightarrow> string \<Rightarrow> 'n \<Rightarrow> string \<Rightarrow> state \<Rightarrow> result" where
  "overlap_inner env subnet_new subnet_object subnet_existing s =
     (case ip_network env subnet_existing of
        None \<Rightarrow> Inl (ValueError subnet_existing, s)
      | Some other \<Rightarrow>
          if overlaps env subnet_object other
          then Inr (log_write (''ERROR: Overlap found between new subnet '' @ subnet_new
                      @ '' and existing subnet '' @ subnet_existing @ nl) (s\<lparr>ERROR := True\<rparr>))
          else Inr s)"

definition overlap_body :: "'n env \<Rightarrow> string \<Rightarrow> state \<Rightarrow> result" where
  "overlap_body env subnet_new s =
     (case ip_network env subnet_new of
        None \<Rightarrow> Inl (ValueError subnet_new, s)
      | Some subnet_object \<Rightarrow>
          for_loop (overlap_inner env subnet_new subnet_object) (subnets_patch s) s)"

text \<open>Lines 1157 to 1164; \<open>needs_patch\<close> is the condition of lines 1160 to 1163.\<close>

definition needs_patch :: "subnet \<Rightarrow> subnet \<Rightarrow> bool" where
  "needs_patch new_data current_data \<longleftrightarrow>
     description new_data \<noteq> description current_data
     \<or> vlan new_data \<noteq> vlan current_data
     \<or> category new_data \<noteq> category current_data
     \<or> location new_data \<noteq> location current_data"

definition patch_check_body :: "(string \<times> subnet) list \<Rightarrow> string \<Rightarrow> state \<Rightarrow> result" where
  "patch_check_body cur subnet s =
     (case getitem cur subnet s of
        Inl e \<Rightarrow> Inl e
      | Inr current_data \<Rightarrow>
          (case getitem (import_data s) subnet s of
             Inl e \<Rightarrow> Inl e
           | Inr new_data \<Rightarrow>
               if needs_patch new_data current_data
               then Inr (s\<lparr>subnets_patch := set_add subnet (subnets_patch s)\<rparr>)
               else Inr s))"

text \<open>
  Modelled from the spec: \<^verbatim>\<open>cli_warning\<close> of \<^verbatim>\<open>log.py\<close>, which is not part of
  \<^verbatim>\<open>commands.py\<close>. A blocking reason aborts the whole run before any mutation, and
  validation calls abort by raising; so \<^verbatim>\<open>cli_warning(msg)\<close> raises, with the message.
\<close>

definition cli_warning :: "string \<Rightarrow> state \<Rightarrow> result" where
  "cli_warning msg s = Inl (CliWarning msg, s)"

text \<open>Lines 1166 and 1167.\<close>

definition error_check :: "state \<Rightarrow> result" where
  "error_check s =
     (if ERROR s
      then cli_warning ''Errors detected during setup. Check subnets_import.log for details'' s
      else Inr s)"

text \<open>
  Lines 1169 and 1170. The division comes first and raises ZeroDivisionError for a
  divisor 0. The quotient is taken in the reals: Python rounds the exact quotient of two
  integers to the nearest double, \<^verbatim>\<open>0.2\<close> is the double nearest to one fifth, and a
  quotient above one fifth with a divisor below \<open>2 ^ 52\<close> is further from one fifth
  than the doubles that are equal to \<^verbatim>\<open>0.2\<close>; so for such inventories the comparison of
  the doubles and the comparison of the exact values agree.
\<close>

definition force_check :: "string list \<Rightarrow> (string \<times> subnet) list \<Rightarrow> string list \<Rightarrow> state \<Rightarrow> result" where
  "force_check args cur dels s =
     (if length (keys cur) = 0 then Inl (ZeroDivisionError, s)
      else if real (length dels + length (subnets_patch s)) / real (length (keys cur)) > 2 / 10
              \<and> ''y'' \<notin> set args
      then cli_warning ''WARNING: The import will change over 20% of the subnets. Requires force'' s
      else Inr s)"

subsection \<open>The requests (lines 1172 to 1197)\<close>

definition url_subnets :: "'n env \<Rightarrow> string \<Rightarrow> string" where
  "url_subnets env subnet =
     ''http://'' @ server_ip env @ '':'' @ server_port env @ ''/subnets/'' @ subnet"

text \<open>One call of \<^verbatim>\<open>delete\<close>, \<^verbatim>\<open>post\<close> or \<^verbatim>\<open>patch\<close>: the request is issued, and
  the helper returns or raises.\<close>

definition send :: "'n env \<Rightarrow> api_call \<Rightarrow> state \<Rightarrow> result" where
  "send env c s =
     (let s' = s\<lparr>requests := requests s @ [c]\<rparr>
      in if request_ok env (requests s) c then Inr s' else Inl (RequestFailed c, s'))"

definition py_str :: "string option \<Rightarrow> pyval" where
  "py_str v = (case v of None \<Rightarrow> PyNone | Some t \<Rightarrow> PyStr t)"

definition py_int :: "int option \<Rightarrow> pyval" where
  "py_int v = (case v of None \<Rightarrow> PyNone | Some i \<Rightarrow> PyInt i)"

definition delete_body :: "'n env \<Rightarrow> string \<Rightarrow> state \<Rightarrow> result" where
  "delete_body env subnet s =
     (let url = url_subnets env subnet
      in case send env (DELETE url) s of
           Inl e \<Rightarrow> Inl e
         | Inr s' \<Rightarrow> Inr (log_write (''DELETE '' @ url @ nl) s'))"

definition post_kwargs :: "subnet \<Rightarrow> (string \<times> pyval) list" where
  "post_kwargs data =
     [(''range'', PyStr (range_str data)),
      (''description'', PyStr (description data)),
      (''vlan'', py_int (vlan data)),
      (''category'', py_str (category data)),
      (''location'', py_str (location data)),
      (''frozen'', PyBool (frozen data))]"

definition post_body :: "'n env \<Rightarrow> string \<Rightarrow> state \<Rightarrow> result" where
  "post_body env subnet s =
     (let url = url_subnets env []
      in case getitem (import_data s) subnet s of
           Inl e \<Rightarrow> Inl e
         | Inr data \<Rightarrow>
             (case send env (POST url (post_kwargs data)) s of
                Inl e \<Rightarrow> Inl e
              | Inr s' \<Rightarrow> Inr (log_write (''POST '' @ url @ '' - '' @ subnet @ nl) s')))"

definition patch_kwargs :: "subnet \<Rightarrow> (string \<times> pyval) list" where
  "patch_kwargs data =
     [(''description'', PyStr (description data)),
      (''vlan'', py_int (vlan data)),
      (''category'', py_str (category data)),
      (''location'', py_str (location data))]"

definition patch_body :: "'n env \<Rightarrow> string \<Rightarrow> state \<Rightarrow> result" where
  "patch_body env subnet s =
     (let url = url_subnets env subnet
      in case getitem (import_data s) subnet s of
           Inl e \<Rightarrow> Inl e
         | Inr data \<Rightarrow>
             (case send env (PATCH url (patch_kwargs data)) s of
                Inl e \<Rightarrow> Inl e
              | Inr s' \<Rightarrow> Inr (log_write (''PATCH '' @ url @ nl) s')))"

subsection \<open>The whole operation\<close>

definition and_then :: "result \<Rightarrow> (state \<Rightarrow> result) \<Rightarrow> result" where
  "and_then r f = (case r of Inl e \<Rightarrow> Inl e | Inr s \<Rightarrow> f s)"

definition initial :: state where
  "initial = \<lparr>ERROR = False, log_file = [], import_data = [], subnets_patch = [], requests = []\<rparr>"

definition input_file :: "'n env \<Rightarrow> string list \<Rightarrow> string" where
  "input_file env args = (if length args < 1 then prompt_reply env else hd args)"

text \<open>Lines 1140 to 1170, from the state \<open>s\<close> in which the file has been read.\<close>

definition checks :: "'n env \<Rightarrow> string list \<Rightarrow> (string \<times> subnet) list \<Rightarrow> string list \<Rightarrow> string list
                       \<Rightarrow> string list \<Rightarrow> state \<Rightarrow> result" where
  "checks env args cur dels posts ignore s =
     and_then (for_loop (in_use_body env) dels s) (\<lambda>s.
     and_then (for_loop (overlap_body env) posts s) (\<lambda>s.
     and_then (for_loop (patch_check_body cur) ignore s) (\<lambda>s.
     and_then (error_check s) (\<lambda>s.
     force_check args cur dels s))))"

text \<open>Lines 1172 to 1197.\<close>

definition execute :: "'n env \<Rightarrow> string list \<Rightarrow> string list \<Rightarrow> state \<Rightarrow> result" where
  "execute env dels posts s =
     and_then (for_loop (delete_body env) dels
                 (log_write (''------ API REQUESTS START ------'' @ nl) s)) (\<lambda>s.
     and_then (for_loop (post_body env) posts s) (\<lambda>s.
     for_loop (patch_body env) (subnets_patch s) s))"

text \<open>Lines 1132 to 1197.\<close>

definition reconcile :: "'n env \<Rightarrow> string list \<Rightarrow> state \<Rightarrow> result" where
  "reconcile env args s =
     (let cur = current_subnets env;
          dels = subnets_delete cur (import_data s);
          posts = subnets_post cur (import_data s);
          ignore = subnets_ignore cur (import_data s)
      in and_then (checks env args cur dels posts ignore s) (execute env dels posts))"

definition opt_import :: "'n env \<Rightarrow> string list \<Rightarrow> result" where
  "opt_import env args =
     and_then (read_file env (input_file env args) initial) (reconcile env args)"

text \<open>The state in which a run ends, and the exception it ends with, if any.\<close>

definition final :: "result \<Rightarrow> state" where
  "final r = (case r of Inl (e, s) \<Rightarrow> s | Inr s \<Rightarrow> s)"

definition raised :: "result \<Rightarrow> error option" where
  "raised r = (case r of Inl (e, s) \<Rightarrow> Some e | Inr s \<Rightarrow> None)"

text \<open>The state of a run when the file has been read, and the dictionary built from
  the file.\<close>

definition after_read :: "'n env \<Rightarrow> string list \<Rightarrow> state" where
  "after_read env args = final (read_file env (input_file env args) initial)"

definition imported :: "'n env \<Rightarrow> string list \<Rightarrow> (string \<times> subnet) list" where
  "imported env args = import_data (after_read env args)"

text \<open>
  The value of \<^verbatim>\<open>subnets_patch\<close> after the loop of lines 1157 to 1164, run for the
  server's dictionary \<open>cur\<close> and the file's dictionary \<open>imp\<close>.
\<close>

definition plan_patch :: "(string \<times> subnet) list \<Rightarrow> (string \<times> subnet) list \<Rightarrow> string list" where
  "plan_patch cur imp =
     subnets_patch (final (for_loop (patch_check_body cur) (subnets_ignore cur imp)
                             (initial\<lparr>import_data := imp\<rparr>)))"

subsection \<open>Notions of the specification\<close>

text \<open>The phase of a request: deletes, then creations, then updates.\<close>

fun phase :: "api_call \<Rightarrow> nat" where
  "phase (DELETE url) = 0"
| "phase (POST url kw) = 1"
| "phase (PATCH url kw) = 2"

text \<open>
  The requests of a plan in the fixed order: one DELETE for each range to delete, then
  one POST for each range to create, then one PATCH for each range to update, with the
  URLs and keyword arguments of lines 1175, 1180 to 1187 and 1191 to 1196.
\<close>

definition plan_requests :: "'n env \<Rightarrow> (string \<times> subnet) list \<Rightarrow> string list \<Rightarrow> string list
                               \<Rightarrow> string list \<Rightarrow> api_call list" where
  "plan_requests env imp to_delete to_create to_update =
     map (\<lambda>k. DELETE (url_subnets env k)) to_delete
     @ map (\<lambda>k. POST (url_subnets env []) (post_kwargs (the (map_of imp k)))) to_create
     @ map (\<lambda>k. PATCH (url_subnets env k) (patch_kwargs (the (map_of imp k)))) to_update"

text \<open>The exceptions of the request loops: a request that failed, or a missing key.\<close>

definition request_error :: "error \<Rightarrow> bool" where
  "request_error e \<longleftrightarrow> (case e of RequestFailed c \<Rightarrow> True | KeyError k \<Rightarrow> True | _ \<Rightarrow> False)"



text \<open>
  The changed subset of the fields of an update, in the words of the specification: the
  fields whose imported value is not the observed value.
\<close>

definition changed_subset :: "subnet \<Rightarrow> subnet \<Rightarrow> (string \<times> pyval) list" where
  "changed_subset new_data current_data =
     filter (\<lambda>kv. kv \<notin> set (patch_kwargs current_data)) (patch_kwargs new_data)"

subsection \<open>An instance of the environment\<close>

text \<open>
  For the runs on concrete inputs: \<^verbatim>\<open>ipaddress.ip_network\<close> and its method
  \<^verbatim>\<open>overlaps\<close> on the strings that the regular expression of line 1107 lets through
  as a range. Such a string is a network when it is \<^verbatim>\<open>a.b.c.d/n\<close> with four decimal
  octets up to 255 of at most three digits and without a leading zero, a decimal prefix
  length up to 32, and no host bit set. A network is its first address, as a number, and
  its prefix length.
\<close>

definition decimal :: "string \<Rightarrow> nat option" where
  "decimal t =
     (if t \<noteq> [] \<and> list_all is_digit t
      then Some (foldl (\<lambda>n c. 10 * n + (of_char c - 48)) 0 t)
      else None)"

definition octet :: "string \<Rightarrow> nat option" where
  "octet t =
     (if length t \<le> 3 \<and> (length t = 1 \<or> hd t \<noteq> CHR ''0'') then decimal t else None)"

definition ipv4_network :: "string \<Rightarrow> (nat \<times> nat) option" where
  "ipv4_network t =
     (case split_on CHR ''/'' t of
        [a, p] \<Rightarrow>
          (case (map octet (split_on CHR ''.'' a), decimal p) of
             ([Some o1, Some o2, Some o3, Some o4], Some n) \<Rightarrow>
               (let first = ((o1 * 256 + o2) * 256 + o3) * 256 + o4
                in if o1 \<le> 255 \<and> o2 \<le> 255 \<and> o3 \<le> 255 \<and> o4 \<le> 255 \<and> n \<le> 32
                      \<and> first mod 2 ^ (32 - n) = 0
                   then Some (first, n) else None)
           | _ \<Rightarrow> None)
      | _ \<Rightarrow> None)"

definition ipv4_contains :: "nat \<times> nat \<Rightarrow> nat \<Rightarrow> bool" where
  "ipv4_contains net a \<longleftrightarrow> fst net \<le> a \<and> a \<le> fst net + 2 ^ (32 - snd net) - 1"

definition ipv4_overlaps :: "nat \<times> nat \<Rightarrow> nat \<times> nat \<Rightarrow> bool" where
  "ipv4_overlaps self other \<longleftrightarrow>
     ipv4_contains self (fst other)
     \<or> ipv4_contains self (fst other + 2 ^ (32 - snd other) - 1)
     \<or> ipv4_contains other (fst self)
     \<or> ipv4_contains other (fst self + 2 ^ (32 - snd self) - 1)"

definition plain :: "string \<Rightarrow> string option \<Rightarrow> subnet" where
  "plain rng loc = \<lparr>range_str = rng, description = ''net'', vlan = Some 0, category = None,
                    location = loc, frozen = False\<rparr>"

text \<open>
  A server at \<^verbatim>\<open>h:80\<close> that accepts every request, with the location tag
  \<^verbatim>\<open>oslo\<close>, the category tags \<^verbatim>\<open>office\<close> and \<^verbatim>\<open>lab\<close>, no VLAN mapping and no
  address in use; the file and the subnets of the server are the arguments.
\<close>

definition site :: "string list \<Rightarrow> subnet list \<Rightarrow> (nat \<times> nat) env" where
  "site file_lines observed =
     \<lparr>server_ip = ''h'', server_port = ''80'', tag_file = ''tags'', prompt_reply = ''f'',
      read_lines = (\<lambda>path. file_lines),
      get_vlan_mapping = Map.empty,
      is_valid_location_tag = (\<lambda>t. t = ''oslo''),
      is_valid_category_tag = (\<lambda>t. t = ''office'' \<or> t = ''lab''),
      res = observed,
      get_subnet_used_list = (\<lambda>r. []),
      ip_network = ipv4_network,
      overlaps = ipv4_overlaps,
      request_ok = (\<lambda>done c. True)\<rparr>"

text \<open>
  A file with two subnet lines and a line that is no subnet, against a server with two
  subnets: \<^verbatim>\<open>10.0.1.0/24\<close> is to delete, \<^verbatim>\<open>10.0.2.0/24\<close> to create and
  \<^verbatim>\<open>10.0.0.0/24\<close> to update.
\<close>

definition office_file :: "string list" where
  "office_file =
     [''10.0.0.0/24   :oslo:office:|Main office subnet'' @ nl,
      ''# not a subnet'' @ nl,
      ''10.0.2.0/24 :unknowntag:lab:office:|  lab net  '' @ nl]"

definition office_observed :: "subnet list" where
  "office_observed = [plain ''10.0.0.0/24'' None, plain ''10.0.1.0/24'' None]"

text \<open>The same, with an address in use on the subnet that is to delete.\<close>

definition in_use_site :: "(nat \<times> nat) env" where
  "in_use_site =
     (site office_file office_observed)
       \<lparr>get_subnet_used_list := (\<lambda>r. if r = ''10.0.1.0/24'' then [''10.0.1.17''] else [])\<rparr>"

text \<open>Five subnets on the server; the file changes the description of the first.\<close>

definition five_file :: "string list" where
  "five_file =
     [''10.0.0.0/24 :oslo:|core'' @ nl,
      ''10.0.1.0/24 :oslo:|net'' @ nl,
      ''10.0.2.0/24 :oslo:|net'' @ nl,
      ''10.0.3.0/24 :oslo:|net'' @ nl,
      ''10.0.4.0/24 :oslo:|net'' @ nl]"

definition five_observed :: "subnet list" where
  "five_observed =
     [plain ''10.0.0.0/24'' (Some ''oslo''), plain ''10.0.1.0/24'' (Some ''oslo''),
      plain ''10.0.2.0/24'' (Some ''oslo''), plain ''10.0.3.0/24'' (Some ''oslo''),
      plain ''10.0.4.0/24'' (Some ''oslo'')]"

text \<open>A server with the subnet \<^verbatim>\<open>10.0.0.0/16\<close>; the file keeps it and defines the new
  subnet \<^verbatim>\<open>10.0.2.0/24\<close> inside it.\<close>

definition nested_file :: "string list" where
  "nested_file = [''10.0.0.0/16 :oslo:|net'' @ nl, ''10.0.2.0/24 :oslo:|net'' @ nl]"

definition nested_observed :: "subnet list" where
  "nested_observed = [plain ''10.0.0.0/16'' (Some ''oslo'')]"

text \<open>One subnet on the server; the file changes its description only.\<close>

definition renamed_file :: "string list" where
  "renamed_file = [''10.0.0.0/24 :oslo:|core'' @ nl]"

definition renamed_observed :: "subnet list" where
  "renamed_observed = [plain ''10.0.0.0/24'' (Some ''oslo'')]"


section \<open>Properties\<close>

lemmas run_defs =
  opt_import_def site_def plain_def input_file_def read_file_def initial_def numbered_def
  read_line_def re_match_def line_re_def range_re_def nl_def is_digit_def is_space_def
  log_write_def line_data_def truthy_def strip_def reconcile_def current_subnets_def
  subnets_delete_def subnets_post_def subnets_ignore_def keys_def checks_def execute_def
  and_then_def in_use_body_def overlap_body_def overlap_inner_def ipv4_network_def
  decimal_def octet_def patch_check_body_def getitem_def needs_patch_def error_check_def
  force_check_def cli_warning_def delete_body_def post_body_def patch_body_def
  url_subnets_def send_def post_kwargs_def patch_kwargs_def py_int_def py_str_def
  set_add_def invalid_tag_def final_def raised_def after_read_def imported_def



subsection \<open>Facts about the diff\<close>

lemma set_subnets_delete: "set (subnets_delete cur imp) = set (keys cur) - set (keys imp)"
  by (auto simp: subnets_delete_def)

lemma set_subnets_post: "set (subnets_post cur imp) = set (keys imp) - set (keys cur)"
  by (auto simp: subnets_post_def)

lemma set_subnets_ignore: "set (subnets_ignore cur imp) = set (keys cur) \<inter> set (keys imp)"
  by (auto simp: subnets_ignore_def)

lemma key_lookup: "k \<in> set (keys d) \<Longrightarrow> \<exists>v. map_of d k = Some v"
  by (cases "map_of d k") (auto simp: keys_def map_of_eq_None_iff)

lemma set_fold_set_add: "set (fold set_add xs ys) = set xs \<union> set ys"
  by (induction xs arbitrary: ys) (auto simp: set_add_def)


lemma patch_check_step:
  assumes "map_of cur k = Some old" and "map_of (import_data s) k = Some new"
  shows "patch_check_body cur k s =
           Inr (s\<lparr>subnets_patch := (if needs_patch new old then set_add k (subnets_patch s)
                                     else subnets_patch s)\<rparr>)"
  using assms by (simp add: patch_check_body_def getitem_def)

lemma patch_check_loop:
  "set ks \<subseteq> set (keys cur) \<inter> set (keys (import_data s)) \<Longrightarrow>
   for_loop (patch_check_body cur) ks s =
     Inr (s\<lparr>subnets_patch :=
            fold set_add
              (filter (\<lambda>k. needs_patch (the (map_of (import_data s) k)) (the (map_of cur k))) ks)
              (subnets_patch s)\<rparr>)"
proof (induction ks arbitrary: s)
  case Nil
  show ?case by simp
next
  case (Cons k ks)
  from Cons.prems obtain old where old: "map_of cur k = Some old"
    using key_lookup [of k cur] by auto
  from Cons.prems obtain new where new: "map_of (import_data s) k = Some new"
    using key_lookup [of k "import_data s"] by auto
  let ?s = "s\<lparr>subnets_patch := (if needs_patch new old then set_add k (subnets_patch s)
                                  else subnets_patch s)\<rparr>"
  have step: "patch_check_body cur k s = Inr ?s"
    by (rule patch_check_step [OF old new])
  have "set ks \<subseteq> set (keys cur) \<inter> set (keys (import_data ?s))"
    using Cons.prems by simp
  from Cons.IH [OF this] show ?case
    by (simp add: step old new)
qed

lemma patch_check_run:
  assumes "import_data s = imp" and "subnets_patch s = []"
  shows "for_loop (patch_check_body cur) (subnets_ignore cur imp) s =
           Inr (s\<lparr>subnets_patch :=
                  fold set_add
                    (filter (\<lambda>k. needs_patch (the (map_of imp k)) (the (map_of cur k)))
                       (subnets_ignore cur imp)) []\<rparr>)"
proof -
  have "set (subnets_ignore cur imp) \<subseteq> set (keys cur) \<inter> set (keys (import_data s))"
    using assms by (simp add: set_subnets_ignore)
  from patch_check_loop [OF this] show ?thesis
    using assms by simp
qed

lemma plan_patch_fold:
  "plan_patch cur imp =
     fold set_add
       (filter (\<lambda>k. needs_patch (the (map_of imp k)) (the (map_of cur k)))
          (subnets_ignore cur imp)) []"
proof -
  have "import_data (initial\<lparr>import_data := imp\<rparr>) = imp"
    and "subnets_patch (initial\<lparr>import_data := imp\<rparr>) = []"
    by (simp_all add: initial_def)
  from patch_check_run [OF this] show ?thesis
    by (simp add: plan_patch_def final_def)
qed

lemma set_plan_patch:
  "set (plan_patch cur imp) =
     {k \<in> set (keys cur) \<inter> set (keys imp).
        needs_patch (the (map_of imp k)) (the (map_of cur k))}"
  by (auto simp: plan_patch_fold set_fold_set_add set_subnets_ignore)

lemma patch_check_plan:
  assumes "import_data s = imp" and "subnets_patch s = []"
  shows "for_loop (patch_check_body cur) (subnets_ignore cur imp) s =
           Inr (s\<lparr>subnets_patch := plan_patch cur imp\<rparr>)"
  using patch_check_run [OF assms] by (simp add: plan_patch_fold)

subsection \<open>The diff is the difference of the key sets and the changed common keys\<close>

text \<open>
  Claim C1. For every dictionary \<open>cur\<close> of the server and every dictionary \<open>imp\<close>
  of the file, the key sets computed in lines 1135 to 1164 are: \<^verbatim>\<open>subnets_delete\<close> the
  keys of \<open>cur\<close> that \<open>imp\<close> does not have, \<^verbatim>\<open>subnets_post\<close> the keys of \<open>imp\<close> that
  \<open>cur\<close> does not have, and \<^verbatim>\<open>subnets_patch\<close> a set of common keys, namely exactly the
  common keys whose records differ in the description, the VLAN, the category or the
  location. The comparison is the equality of the values (\<open>Some 0\<close> is not \<open>None\<close>).
  The last part says that the loop of lines 1157 to 1164 ends with this set from every
  state that holds \<open>imp\<close> and an empty \<^verbatim>\<open>subnets_patch\<close>.
\<close>

theorem diff_partition:
  "set (subnets_delete cur imp) = set (keys cur) - set (keys imp) \<and>
   set (subnets_post cur imp) = set (keys imp) - set (keys cur) \<and>
   set (plan_patch cur imp) \<subseteq> set (keys cur) \<inter> set (keys imp) \<and>
   set (plan_patch cur imp) =
     {k \<in> set (keys cur) \<inter> set (keys imp).
        \<exists>new old. map_of imp k = Some new \<and> map_of cur k = Some old \<and>
          (description new \<noteq> description old \<or> vlan new \<noteq> vlan old \<or>
           category new \<noteq> category old \<or> location new \<noteq> location old)} \<and>
   (\<forall>s. import_data s = imp \<and> subnets_patch s = [] \<longrightarrow>
        for_loop (patch_check_body cur) (subnets_ignore cur imp) s =
          Inr (s\<lparr>subnets_patch := plan_patch cur imp\<rparr>))"
proof -
  have "set (plan_patch cur imp) =
     {k \<in> set (keys cur) \<inter> set (keys imp).
        \<exists>new old. map_of imp k = Some new \<and> map_of cur k = Some old \<and>
          (description new \<noteq> description old \<or> vlan new \<noteq> vlan old \<or>
           category new \<noteq> category old \<or> location new \<noteq> location old)}"
    (is "_ = ?R")
  proof (rule set_eqI)
    fix k
    show "k \<in> set (plan_patch cur imp) \<longleftrightarrow> k \<in> ?R"
    proof (cases "k \<in> set (keys cur) \<inter> set (keys imp)")
      case False
      then show ?thesis by (auto simp: set_plan_patch)
    next
      case True
      then obtain old new where "map_of cur k = Some old" and "map_of imp k = Some new"
        using key_lookup [of k cur] key_lookup [of k imp] by auto
      with True show ?thesis
        by (simp add: set_plan_patch needs_patch_def)
    qed
  qed
  moreover have "set (plan_patch cur imp) \<subseteq> set (keys cur) \<inter> set (keys imp)"
    by (auto simp: set_plan_patch)
  ultimately show ?thesis
    by (simp add: set_subnets_delete set_subnets_post patch_check_plan)
qed

theorem diff_partition_witness:
  "set (subnets_delete
          [(''10.0.0.0/24'', plain ''10.0.0.0/24'' None\<lparr>vlan := None\<rparr>),
           (''10.0.1.0/24'', plain ''10.0.1.0/24'' None)]
          [(''10.0.0.0/24'', plain ''10.0.0.0/24'' None),
           (''10.0.2.0/24'', plain ''10.0.2.0/24'' None)]) = {''10.0.1.0/24''} \<and>
   set (subnets_post
          [(''10.0.0.0/24'', plain ''10.0.0.0/24'' None\<lparr>vlan := None\<rparr>),
           (''10.0.1.0/24'', plain ''10.0.1.0/24'' None)]
          [(''10.0.0.0/24'', plain ''10.0.0.0/24'' None),
           (''10.0.2.0/24'', plain ''10.0.2.0/24'' None)]) = {''10.0.2.0/24''} \<and>
   set (plan_patch
          [(''10.0.0.0/24'', plain ''10.0.0.0/24'' None\<lparr>vlan := None\<rparr>),
           (''10.0.1.0/24'', plain ''10.0.1.0/24'' None)]
          [(''10.0.0.0/24'', plain ''10.0.0.0/24'' None),
           (''10.0.2.0/24'', plain ''10.0.2.0/24'' None)]) = {''10.0.0.0/24''}"
  using diff_partition
    [of "[(''10.0.0.0/24'', plain ''10.0.0.0/24'' None\<lparr>vlan := None\<rparr>),
          (''10.0.1.0/24'', plain ''10.0.1.0/24'' None)]"
        "[(''10.0.0.0/24'', plain ''10.0.0.0/24'' None),
          (''10.0.2.0/24'', plain ''10.0.2.0/24'' None)]"]
  by (auto simp: keys_def plain_def)

subsection \<open>An import equal to the server's subnets changes nothing\<close>

text \<open>
  Claim C9. When the server's dictionary and the file's dictionary have the same keys,
  and for every key the two records have the same description, VLAN, category and
  location, the three sets of the diff are empty: nothing to delete, nothing to create,
  nothing to update.
\<close>

theorem diff_idempotent:
  assumes same_keys: "set (keys cur) = set (keys imp)"
    and same_fields: "\<And>k new old. map_of imp k = Some new \<Longrightarrow> map_of cur k = Some old \<Longrightarrow>
           description new = description old \<and> vlan new = vlan old \<and>
           category new = category old \<and> location new = location old"
  shows "subnets_delete cur imp = [] \<and> subnets_post cur imp = [] \<and> plan_patch cur imp = []"
proof -
  have "set (subnets_delete cur imp) = {}" and "set (subnets_post cur imp) = {}"
    using same_keys by (simp_all add: set_subnets_delete set_subnets_post)
  moreover have "set (plan_patch cur imp) = {}"
  proof -
    have "\<not> needs_patch (the (map_of imp k)) (the (map_of cur k))"
      if "k \<in> set (keys cur) \<inter> set (keys imp)" for k
    proof -
      from that obtain old new where "map_of cur k = Some old" and "map_of imp k = Some new"
        using key_lookup [of k cur] key_lookup [of k imp] by auto
      then show ?thesis
        using same_fields [of k new old] by (simp add: needs_patch_def)
    qed
    then show ?thesis by (auto simp: set_plan_patch)
  qed
  ultimately show ?thesis by simp
qed

theorem diff_idempotent_witness:
  "set (keys [(''10.0.0.0/24'', plain ''10.0.0.0/24'' None\<lparr>frozen := True\<rparr>),
              (''10.0.1.0/24'', plain ''10.0.1.0/24'' (Some ''oslo''))])
     = set (keys [(''10.0.1.0/24'', plain ''10.0.1.0/24'' (Some ''oslo'')),
                  (''10.0.0.0/24'', plain ''10.0.0.0/24'' None)]) \<and>
   subnets_delete
     [(''10.0.0.0/24'', plain ''10.0.0.0/24'' None\<lparr>frozen := True\<rparr>),
      (''10.0.1.0/24'', plain ''10.0.1.0/24'' (Some ''oslo''))]
     [(''10.0.1.0/24'', plain ''10.0.1.0/24'' (Some ''oslo'')),
      (''10.0.0.0/24'', plain ''10.0.0.0/24'' None)] = [] \<and>
   subnets_post
     [(''10.0.0.0/24'', plain ''10.0.0.0/24'' None\<lparr>frozen := True\<rparr>),
      (''10.0.1.0/24'', plain ''10.0.1.0/24'' (Some ''oslo''))]
     [(''10.0.1.0/24'', plain ''10.0.1.0/24'' (Some ''oslo'')),
      (''10.0.0.0/24'', plain ''10.0.0.0/24'' None)] = [] \<and>
   plan_patch
     [(''10.0.0.0/24'', plain ''10.0.0.0/24'' None\<lparr>frozen := True\<rparr>),
      (''10.0.1.0/24'', plain ''10.0.1.0/24'' (Some ''oslo''))]
     [(''10.0.1.0/24'', plain ''10.0.1.0/24'' (Some ''oslo'')),
      (''10.0.0.0/24'', plain ''10.0.0.0/24'' None)] = []"
proof -
  have k: "set (keys [(''10.0.0.0/24'', plain ''10.0.0.0/24'' None\<lparr>frozen := True\<rparr>),
              (''10.0.1.0/24'', plain ''10.0.1.0/24'' (Some ''oslo''))])
     = set (keys [(''10.0.1.0/24'', plain ''10.0.1.0/24'' (Some ''oslo'')),
                  (''10.0.0.0/24'', plain ''10.0.0.0/24'' None)])"
    by (auto simp: keys_def)
  have f: "description new = description old \<and> vlan new = vlan old \<and>
           category new = category old \<and> location new = location old"
    if "map_of [(''10.0.1.0/24'', plain ''10.0.1.0/24'' (Some ''oslo'')),
                (''10.0.0.0/24'', plain ''10.0.0.0/24'' None)] k = Some new"
      and "map_of [(''10.0.0.0/24'', plain ''10.0.0.0/24'' None\<lparr>frozen := True\<rparr>),
                   (''10.0.1.0/24'', plain ''10.0.1.0/24'' (Some ''oslo''))] k = Some old"
    for k new old
    using that by (auto simp: plain_def split: if_splits)
  show ?thesis
    using k diff_idempotent [OF k f] by simp
qed


subsection \<open>Facts about a run\<close>

lemma read_line_frame:
  "\<exists>s'. read_line env nline s = Inr s' \<and> requests s' = requests s \<and>
        subnets_patch s' = subnets_patch s \<and> ERROR s' = ERROR s"
  by (auto simp: read_line_def Let_def split: option.splits prod.splits)

lemma read_loop_frame:
  "\<exists>s'. for_loop (read_line env) xs s = Inr s' \<and> requests s' = requests s \<and>
        subnets_patch s' = subnets_patch s \<and> ERROR s' = ERROR s"
proof (induction xs arbitrary: s)
  case Nil
  show ?case by simp
next
  case (Cons x xs)
  obtain s1 where s1: "read_line env x s = Inr s1" "requests s1 = requests s"
      "subnets_patch s1 = subnets_patch s" "ERROR s1 = ERROR s"
    using read_line_frame [of env x s] by auto
  from Cons.IH [of s1] s1 show ?case by auto
qed

lemma read_file_frame:
  "\<exists>s'. read_file env f s = Inr s' \<and> requests s' = requests s \<and>
        subnets_patch s' = subnets_patch s \<and> ERROR s' = ERROR s"
proof -
  let ?s0 = "log_write (''------ READ FROM '' @ f @ '' START ------'' @ nl) s"
  obtain s1 where s1: "for_loop (read_line env) (numbered (read_lines env f)) ?s0 = Inr s1"
      "requests s1 = requests ?s0" "subnets_patch s1 = subnets_patch ?s0" "ERROR s1 = ERROR ?s0"
    using read_loop_frame [of env "numbered (read_lines env f)" ?s0] by auto
  then show ?thesis
    by (simp add: read_file_def log_write_def)
qed

lemma read_ok:
  "read_file env (input_file env args) initial = Inr (after_read env args)"
  using read_file_frame [of env "input_file env args" initial]
  by (auto simp: after_read_def final_def)

lemma after_read_frame:
  "requests (after_read env args) = [] \<and> subnets_patch (after_read env args) = [] \<and>
   ERROR (after_read env args) = False \<and> import_data (after_read env args) = imported env args"
  using read_file_frame [of env "input_file env args" initial]
  by (auto simp: after_read_def final_def initial_def imported_def)

lemma opt_import_reconcile: "opt_import env args = reconcile env args (after_read env args)"
  by (simp add: opt_import_def read_ok and_then_def)

lemma in_use_clear:
  "\<forall>k\<in>set ks. get_subnet_used_list env k = [] \<Longrightarrow> for_loop (in_use_body env) ks s = Inr s"
  by (induction ks) (simp_all add: in_use_body_def)

lemma in_use_hit:
  "\<exists>k\<in>set ks. get_subnet_used_list env k \<noteq> [] \<Longrightarrow>
   for_loop (in_use_body env) ks s = Inl (TypeError, s\<lparr>ERROR := True\<rparr>)"
  by (induction ks) (auto simp: in_use_body_def)

lemma overlap_body_empty:
  "subnets_patch s = [] \<Longrightarrow>
   overlap_body env k s =
     (case ip_network env k of None \<Rightarrow> Inl (ValueError k, s) | Some n \<Rightarrow> Inr s)"
  by (simp add: overlap_body_def split: option.splits)

lemma overlap_loop_empty:
  "subnets_patch s = [] \<Longrightarrow>
   for_loop (overlap_body env) ks s =
     (case find (\<lambda>k. ip_network env k = None) ks of
        None \<Rightarrow> Inr s
      | Some k \<Rightarrow> Inl (ValueError k, s))"
  by (induction ks) (auto simp: overlap_body_empty split: option.splits)

lemma checks_cases:
  assumes "subnets_patch s = []" and "ERROR s = False" and "import_data s = imp"
  shows "checks env args cur (subnets_delete cur imp) posts (subnets_ignore cur imp) s =
     (if \<exists>k\<in>set (subnets_delete cur imp). get_subnet_used_list env k \<noteq> []
      then Inl (TypeError, s\<lparr>ERROR := True\<rparr>)
      else (case find (\<lambda>k. ip_network env k = None) posts of
              Some k \<Rightarrow> Inl (ValueError k, s)
            | None \<Rightarrow> force_check args cur (subnets_delete cur imp)
                        (s\<lparr>subnets_patch := plan_patch cur imp\<rparr>)))"
proof (cases "\<exists>k\<in>set (subnets_delete cur imp). get_subnet_used_list env k \<noteq> []")
  case True
  then show ?thesis
    by (simp add: checks_def in_use_hit and_then_def)
next
  case False
  then have clear: "for_loop (in_use_body env) (subnets_delete cur imp) s = Inr s"
    by (simp add: in_use_clear)
  show ?thesis
  proof (cases "find (\<lambda>k. ip_network env k = None) posts")
    case (Some k)
    with False clear assms show ?thesis
      by (simp add: checks_def and_then_def overlap_loop_empty)
  next
    case None
    with False clear assms show ?thesis
      by (simp add: checks_def and_then_def overlap_loop_empty patch_check_plan error_check_def)
  qed
qed

lemma force_check_frame:
  "final (force_check args cur dels s) = s"
  by (simp add: force_check_def cli_warning_def final_def)

lemma checks_requests:
  assumes "subnets_patch s = []" and "ERROR s = False" and "import_data s = imp"
  shows "requests (final (checks env args cur (subnets_delete cur imp) posts
                             (subnets_ignore cur imp) s)) = requests s"
  by (simp add: checks_cases [OF assms] final_def force_check_frame [unfolded final_def]
      split: option.splits)


lemma for_loop_requests:
  assumes step: "\<And>k s. I s \<Longrightarrow>
       (case body k s of
          Inr s' \<Rightarrow> I s' \<and> requests s' = requests s @ [f k]
        | Inl (e, s') \<Rightarrow> requests s' = requests s \<or> requests s' = requests s @ [f k])"
    and inv: "I s"
  shows "prefix (requests (final (for_loop body ks s))) (requests s @ map f ks) \<and>
         (\<forall>s'. for_loop body ks s = Inr s' \<longrightarrow> I s' \<and> requests s' = requests s @ map f ks)"
  using inv
proof (induction ks arbitrary: s)
  case Nil
  then show ?case by (simp add: final_def)
next
  case (Cons k ks)
  show ?case
  proof (cases "body k s")
    case (Inl p)
    obtain e s1 where p: "p = (e, s1)" by (cases p)
    from step [OF Cons.prems, of k] Inl p
    have "requests s1 = requests s \<or> requests s1 = requests s @ [f k]" by simp
    then have "prefix (requests s1) (requests s @ f k # map f ks)"
      by (auto simp: prefix_def)
    with Inl p show ?thesis by (simp add: final_def)
  next
    case (Inr s1)
    from step [OF Cons.prems, of k] Inr
    have s1: "I s1" "requests s1 = requests s @ [f k]" by simp_all
    from Cons.IH [OF s1(1)] Inr s1(2) show ?thesis by simp
  qed
qed

lemma delete_loop:
  assumes "import_data s = imp \<and> subnets_patch s = U"
  shows "prefix (requests (final (for_loop (delete_body env) ks s)))
           (requests s @ map (\<lambda>k. DELETE (url_subnets env k)) ks) \<and>
         (\<forall>s'. for_loop (delete_body env) ks s = Inr s' \<longrightarrow>
            (import_data s' = imp \<and> subnets_patch s' = U) \<and>
            requests s' = requests s @ map (\<lambda>k. DELETE (url_subnets env k)) ks)"
proof (rule for_loop_requests [where I = "\<lambda>s. import_data s = imp \<and> subnets_patch s = U"])
  fix k and s :: state
  assume "import_data s = imp \<and> subnets_patch s = U"
  then show "case delete_body env k s of
          Inl (e, s') \<Rightarrow> requests s' = requests s \<or>
                requests s' = requests s @ [DELETE (url_subnets env k)]
        | Inr s' \<Rightarrow> (import_data s' = imp \<and> subnets_patch s' = U) \<and>
                requests s' = requests s @ [DELETE (url_subnets env k)]"
    by (simp add: delete_body_def send_def Let_def log_write_def)
qed (rule assms)

lemma post_loop:
  assumes "import_data s = imp \<and> subnets_patch s = U"
  shows "prefix (requests (final (for_loop (post_body env) ks s)))
           (requests s @ map (\<lambda>k. POST (url_subnets env []) (post_kwargs (the (map_of imp k)))) ks) \<and>
         (\<forall>s'. for_loop (post_body env) ks s = Inr s' \<longrightarrow>
            (import_data s' = imp \<and> subnets_patch s' = U) \<and>
            requests s' = requests s @
              map (\<lambda>k. POST (url_subnets env []) (post_kwargs (the (map_of imp k)))) ks)"
proof (rule for_loop_requests [where I = "\<lambda>s. import_data s = imp \<and> subnets_patch s = U"])
  fix k and s :: state
  assume "import_data s = imp \<and> subnets_patch s = U"
  then show "case post_body env k s of
          Inl (e, s') \<Rightarrow> requests s' = requests s \<or>
                requests s' = requests s @ [POST (url_subnets env []) (post_kwargs (the (map_of imp k)))]
        | Inr s' \<Rightarrow> (import_data s' = imp \<and> subnets_patch s' = U) \<and>
                requests s' = requests s @ [POST (url_subnets env []) (post_kwargs (the (map_of imp k)))]"
    by (simp add: post_body_def getitem_def send_def Let_def log_write_def split: option.splits)
qed (rule assms)

lemma patch_loop:
  assumes "import_data s = imp \<and> subnets_patch s = U"
  shows "prefix (requests (final (for_loop (patch_body env) ks s)))
           (requests s @ map (\<lambda>k. PATCH (url_subnets env k) (patch_kwargs (the (map_of imp k)))) ks) \<and>
         (\<forall>s'. for_loop (patch_body env) ks s = Inr s' \<longrightarrow>
            (import_data s' = imp \<and> subnets_patch s' = U) \<and>
            requests s' = requests s @
              map (\<lambda>k. PATCH (url_subnets env k) (patch_kwargs (the (map_of imp k)))) ks)"
proof (rule for_loop_requests [where I = "\<lambda>s. import_data s = imp \<and> subnets_patch s = U"])
  fix k and s :: state
  assume "import_data s = imp \<and> subnets_patch s = U"
  then show "case patch_body env k s of
          Inl (e, s') \<Rightarrow> requests s' = requests s \<or>
                requests s' = requests s @ [PATCH (url_subnets env k) (patch_kwargs (the (map_of imp k)))]
        | Inr s' \<Rightarrow> (import_data s' = imp \<and> subnets_patch s' = U) \<and>
                requests s' = requests s @ [PATCH (url_subnets env k) (patch_kwargs (the (map_of imp k)))]"
    by (simp add: patch_body_def getitem_def send_def Let_def log_write_def split: option.splits)
qed (rule assms)

text \<open>The requests of a plan, in the order of the three loops.\<close>

lemma execute_requests:
  assumes "requests s = []" and "import_data s = imp" and "subnets_patch s = U"
  shows "prefix (requests (final (execute env dels posts s)))
           (map (\<lambda>k. DELETE (url_subnets env k)) dels
            @ map (\<lambda>k. POST (url_subnets env []) (post_kwargs (the (map_of imp k)))) posts
            @ map (\<lambda>k. PATCH (url_subnets env k) (patch_kwargs (the (map_of imp k)))) U) \<and>
         (\<forall>s'. execute env dels posts s = Inr s' \<longrightarrow>
            import_data s' = imp \<and> subnets_patch s' = U \<and>
            requests s' =
              map (\<lambda>k. DELETE (url_subnets env k)) dels
              @ map (\<lambda>k. POST (url_subnets env []) (post_kwargs (the (map_of imp k)))) posts
              @ map (\<lambda>k. PATCH (url_subnets env k) (patch_kwargs (the (map_of imp k)))) U)"
    (is "prefix _ (?D @ ?P @ ?U) \<and> _")
proof -
  let ?s0 = "log_write (''------ API REQUESTS START ------'' @ nl) s"
  have s0: "import_data ?s0 = imp \<and> subnets_patch ?s0 = U" and r0: "requests ?s0 = []"
    using assms by (simp_all add: log_write_def)
  note d = delete_loop [OF s0, of env dels, unfolded r0 append_Nil]
  show ?thesis
  proof (cases "for_loop (delete_body env) dels ?s0")
    case (Inl p)
    with d have "prefix (requests (final (Inl p))) ?D" by simp
    then have "prefix (requests (final (Inl p))) (?D @ ?P @ ?U)"
      by (rule prefix_prefix)
    with Inl show ?thesis by (simp add: execute_def and_then_def)
  next
    case (Inr s1)
    with d have s1: "import_data s1 = imp \<and> subnets_patch s1 = U" and r1: "requests s1 = ?D"
      by simp_all
    note p = post_loop [OF s1, of env posts, unfolded r1]
    show ?thesis
    proof (cases "for_loop (post_body env) posts s1")
      case (Inl q)
      with p have "prefix (requests (final (Inl q))) (?D @ ?P)" by simp
      then have "prefix (requests (final (Inl q))) ((?D @ ?P) @ ?U)"
        by (rule prefix_prefix)
      with Inl Inr show ?thesis by (simp add: execute_def and_then_def)
    next
      case (Inr s2)
      with p have s2: "import_data s2 = imp \<and> subnets_patch s2 = U" and r2: "requests s2 = ?D @ ?P"
        by simp_all
      note u = patch_loop [OF s2, of env U, unfolded r2]
      from s2 have "subnets_patch s2 = U" by simp
      with u Inr \<open>for_loop (delete_body env) dels ?s0 = Inr s1\<close> show ?thesis
        by (simp add: execute_def and_then_def)
    qed
  qed
qed


lemma force_check_ok: "force_check args cur dels s = Inr s' \<Longrightarrow> s' = s"
  by (simp add: force_check_def cli_warning_def split: if_splits)

lemma checks_ok:
  assumes "subnets_patch s = []" and "ERROR s = False" and "import_data s = imp"
    and "checks env args cur (subnets_delete cur imp) posts (subnets_ignore cur imp) s = Inr s'"
  shows "s' = s\<lparr>subnets_patch := plan_patch cur imp\<rparr>"
  using assms(4) force_check_ok
  by (auto simp: checks_cases [OF assms(1-3)] split: if_splits option.splits)

lemma run_requests:
  "prefix (requests (final (opt_import env args)))
     (plan_requests env (imported env args)
        (subnets_delete (current_subnets env) (imported env args))
        (subnets_post (current_subnets env) (imported env args))
        (plan_patch (current_subnets env) (imported env args))) \<and>
   (\<forall>s. opt_import env args = Inr s \<longrightarrow>
      import_data s = imported env args \<and>
      subnets_patch s = plan_patch (current_subnets env) (imported env args) \<and>
      requests s =
        plan_requests env (imported env args)
          (subnets_delete (current_subnets env) (imported env args))
          (subnets_post (current_subnets env) (imported env args))
          (plan_patch (current_subnets env) (imported env args)))"
proof -
  let ?s0 = "after_read env args"
  let ?cur = "current_subnets env"
  let ?imp = "imported env args"
  let ?c = "checks env args ?cur (subnets_delete ?cur ?imp) (subnets_post ?cur ?imp)
              (subnets_ignore ?cur ?imp) ?s0"
  have s0: "subnets_patch ?s0 = []" "ERROR ?s0 = False" "import_data ?s0 = ?imp"
    and r0: "requests ?s0 = []"
    using after_read_frame [of env args] by simp_all
  have unfold: "opt_import env args =
      and_then ?c (execute env (subnets_delete ?cur ?imp) (subnets_post ?cur ?imp))"
    by (simp add: opt_import_reconcile reconcile_def Let_def s0)
  show ?thesis
  proof (cases ?c)
    case (Inl p)
    have "requests (final ?c) = []"
      using checks_requests [OF s0, of env args ?cur "subnets_post ?cur ?imp"] r0 by simp
    with Inl show ?thesis
      by (simp add: unfold and_then_def)
  next
    case (Inr s1)
    from checks_ok [OF s0 Inr] have s1: "s1 = ?s0\<lparr>subnets_patch := plan_patch ?cur ?imp\<rparr>" .
    have "requests s1 = []" "import_data s1 = ?imp" "subnets_patch s1 = plan_patch ?cur ?imp"
      using s1 s0 r0 by simp_all
    from execute_requests [OF this, of env "subnets_delete ?cur ?imp" "subnets_post ?cur ?imp"]
    show ?thesis
      by (simp add: unfold Inr and_then_def plan_requests_def)
  qed
qed

lemma distinct_keys_update: "distinct (keys al) \<Longrightarrow> distinct (keys (AList.update k v al))"
  by (simp add: keys_def distinct_update)

lemma set_keys_update: "set (keys (AList.update k v al)) = insert k (set (keys al))"
  by (simp add: keys_def dom_update)

lemma fold_update_keys:
  "distinct (keys acc) \<Longrightarrow>
   distinct (keys (fold (\<lambda>subnet d. AList.update (range_str subnet) subnet d) xs acc)) \<and>
   set (keys (fold (\<lambda>subnet d. AList.update (range_str subnet) subnet d) xs acc))
     = set (keys acc) \<union> range_str ` set xs"
  by (induction xs arbitrary: acc) (auto simp: distinct_keys_update set_keys_update)

lemma current_subnets_keys:
  "distinct (keys (current_subnets env)) \<and>
   set (keys (current_subnets env)) = range_str ` set (res env)"
  using fold_update_keys [of "[]" "res env"] by (simp add: current_subnets_def keys_def)

lemma current_subnets_empty: "keys (current_subnets env) = [] \<longleftrightarrow> res env = []"
proof -
  have "keys (current_subnets env) = [] \<longleftrightarrow> set (keys (current_subnets env)) = {}"
    by simp
  then show ?thesis
    by (simp add: current_subnets_keys)
qed

lemma read_line_distinct:
  "distinct (keys (import_data s)) \<Longrightarrow> read_line env nline s = Inr s' \<Longrightarrow>
   distinct (keys (import_data s'))"
  by (auto simp: read_line_def Let_def distinct_keys_update split: option.splits prod.splits)

lemma read_loop_distinct:
  "distinct (keys (import_data s)) \<Longrightarrow> for_loop (read_line env) xs s = Inr s' \<Longrightarrow>
   distinct (keys (import_data s'))"
proof (induction xs arbitrary: s)
  case Nil
  then show ?case by simp
next
  case (Cons x xs)
  from Cons.prems(2) obtain s1 where s1: "read_line env x s = Inr s1"
      and rest: "for_loop (read_line env) xs s1 = Inr s'"
    by (auto split: sum.splits)
  from read_line_distinct [OF Cons.prems(1) s1] rest show ?case
    by (rule Cons.IH)
qed

lemma imported_distinct: "distinct (keys (imported env args))"
proof -
  let ?f = "input_file env args"
  let ?s0 = "log_write (''------ READ FROM '' @ ?f @ '' START ------'' @ nl) initial"
  obtain s1 where s1: "for_loop (read_line env) (numbered (read_lines env ?f)) ?s0 = Inr s1"
    using read_loop_frame [of env "numbered (read_lines env ?f)" ?s0] by auto
  have "distinct (keys (import_data ?s0))"
    by (simp add: log_write_def initial_def keys_def)
  from read_loop_distinct [OF this s1] have d: "distinct (keys (import_data s1))" .
  have "read_file env ?f initial =
          Inr (log_write (''------ READ FROM '' @ ?f @ '' END ------'' @ nl) s1)"
    using s1 by (simp add: read_file_def)
  then have "imported env args = import_data s1"
    by (simp add: imported_def after_read_def final_def log_write_def)
  with d show ?thesis by simp
qed



subsection \<open>The order of the requests\<close>

lemma sorted_plan_requests: "sorted (map phase (plan_requests env imp ds ps us))"
  by (auto simp: plan_requests_def sorted_append comp_def map_replicate_const)

lemma sorted_prefix: "prefix xs ys \<Longrightarrow> sorted (map phase ys) \<Longrightarrow> sorted (map phase xs)"
  by (auto simp: prefix_def sorted_append)

text \<open>
  Claim C7. The requests that a run issues are the requests of its plan, in the fixed
  order: one DELETE for each range of \<^verbatim>\<open>subnets_delete\<close>, then one POST for each range
  of \<^verbatim>\<open>subnets_post\<close>, then one PATCH for each range of \<^verbatim>\<open>subnets_patch\<close>. A run
  that ends without an exception has issued all of them; a run that ends with an
  exception (a rejected plan, or a request that failed) has issued an initial part of
  this list, the empty one for a rejected plan. In every case no request of a later phase
  stands before a request of an earlier phase.
\<close>

theorem requests_in_order:
  "prefix (requests (final (opt_import env args)))
     (plan_requests env (imported env args)
        (subnets_delete (current_subnets env) (imported env args))
        (subnets_post (current_subnets env) (imported env args))
        (plan_patch (current_subnets env) (imported env args))) \<and>
   (raised (opt_import env args) = None \<longrightarrow>
      requests (final (opt_import env args)) =
        plan_requests env (imported env args)
          (subnets_delete (current_subnets env) (imported env args))
          (subnets_post (current_subnets env) (imported env args))
          (plan_patch (current_subnets env) (imported env args))) \<and>
   sorted (map phase (requests (final (opt_import env args))))"
proof -
  note r = run_requests [of env args]
  from r have p: "prefix (requests (final (opt_import env args)))
     (plan_requests env (imported env args)
        (subnets_delete (current_subnets env) (imported env args))
        (subnets_post (current_subnets env) (imported env args))
        (plan_patch (current_subnets env) (imported env args)))"
    by simp
  have "requests (final (opt_import env args)) =
        plan_requests env (imported env args)
          (subnets_delete (current_subnets env) (imported env args))
          (subnets_post (current_subnets env) (imported env args))
          (plan_patch (current_subnets env) (imported env args))"
    if "raised (opt_import env args) = None"
  proof -
    from that obtain s where "opt_import env args = Inr s"
      by (auto simp: raised_def split: sum.splits)
    with r show ?thesis by (simp add: final_def)
  qed
  with p sorted_prefix [OF p sorted_plan_requests] show ?thesis by simp
qed

theorem requests_in_order_witness:
  "raised (opt_import (site office_file office_observed) [''f'', ''y'']) = None \<and>
   requests (final (opt_import (site office_file office_observed) [''f'', ''y''])) =
     plan_requests (site office_file office_observed)
       (imported (site office_file office_observed) [''f'', ''y''])
       [''10.0.1.0/24''] [''10.0.2.0/24''] [''10.0.0.0/24''] \<and>
   requests (final (opt_import (site office_file office_observed) [''f'', ''y''])) =
     [DELETE ''http://h:80/subnets/10.0.1.0/24'',
      POST ''http://h:80/subnets/''
        [(''range'', PyStr ''10.0.2.0/24''), (''description'', PyStr ''lab net''),
         (''vlan'', PyInt 0), (''category'', PyStr ''lab office''), (''location'', PyNone),
         (''frozen'', PyBool False)],
      PATCH ''http://h:80/subnets/10.0.0.0/24''
        [(''description'', PyStr ''Main office subnet''), (''vlan'', PyInt 0),
         (''category'', PyStr ''office''), (''location'', PyStr ''oslo'')]] \<and>
   sorted (map phase (requests (final (opt_import (site office_file office_observed)
                                          [''f'', ''y'']))))"
proof -
  have ok: "raised (opt_import (site office_file office_observed) [''f'', ''y'']) = None"
    by (simp add: run_defs office_file_def office_observed_def)
  have d: "subnets_delete (current_subnets (site office_file office_observed))
             (imported (site office_file office_observed) [''f'', ''y'']) = [''10.0.1.0/24'']"
    by (simp add: run_defs office_file_def office_observed_def)
  have p: "subnets_post (current_subnets (site office_file office_observed))
             (imported (site office_file office_observed) [''f'', ''y'']) = [''10.0.2.0/24'']"
    by (simp add: run_defs office_file_def office_observed_def)
  have u: "plan_patch (current_subnets (site office_file office_observed))
             (imported (site office_file office_observed) [''f'', ''y'']) = [''10.0.0.0/24'']"
    by (simp add: plan_patch_def run_defs office_file_def office_observed_def)
  have c: "requests (final (opt_import (site office_file office_observed) [''f'', ''y''])) =
     [DELETE ''http://h:80/subnets/10.0.1.0/24'',
      POST ''http://h:80/subnets/''
        [(''range'', PyStr ''10.0.2.0/24''), (''description'', PyStr ''lab net''),
         (''vlan'', PyInt 0), (''category'', PyStr ''lab office''), (''location'', PyNone),
         (''frozen'', PyBool False)],
      PATCH ''http://h:80/subnets/10.0.0.0/24''
        [(''description'', PyStr ''Main office subnet''), (''vlan'', PyInt 0),
         (''category'', PyStr ''office''), (''location'', PyStr ''oslo'')]]"
    by (simp add: run_defs office_file_def office_observed_def)
  note t = requests_in_order [of "site office_file office_observed" "[''f'', ''y'']",
      unfolded d p u]
  from t ok
  have e: "requests (final (opt_import (site office_file office_observed) [''f'', ''y''])) =
     plan_requests (site office_file office_observed)
       (imported (site office_file office_observed) [''f'', ''y''])
       [''10.0.1.0/24''] [''10.0.2.0/24''] [''10.0.0.0/24'']"
    by blast
  from t
  have "sorted (map phase (requests (final (opt_import (site office_file office_observed)
                                          [''f'', ''y'']))))"
    by blast
  with ok e c show ?thesis by blast
qed

subsection \<open>A subnet with addresses in use\<close>

text \<open>
  Claim C4. When a range that is to delete has a non-empty list of used addresses, the
  run ends with an exception and has issued no request, whatever the arguments are, the
  force flag \<^verbatim>\<open>y\<close> among them or not.
\<close>

theorem in_use_delete_rejected:
  assumes "k \<in> set (subnets_delete (current_subnets env) (imported env args))"
    and "get_subnet_used_list env k \<noteq> []"
  shows "raised (opt_import env args) \<noteq> None \<and> requests (final (opt_import env args)) = []"
proof -
  let ?s0 = "after_read env args"
  have s0: "subnets_patch ?s0 = []" "ERROR ?s0 = False" "import_data ?s0 = imported env args"
    and r0: "requests ?s0 = []"
    using after_read_frame [of env args] by simp_all
  from assms have "\<exists>k\<in>set (subnets_delete (current_subnets env) (imported env args)).
      get_subnet_used_list env k \<noteq> []"
    by blast
  then have "opt_import env args = Inl (TypeError, ?s0\<lparr>ERROR := True\<rparr>)"
    by (simp add: opt_import_reconcile reconcile_def Let_def s0 checks_cases [OF s0] and_then_def)
  then show ?thesis
    by (simp add: raised_def final_def r0)
qed

theorem in_use_delete_rejected_witness:
  "''10.0.1.0/24'' \<in> set (subnets_delete (current_subnets in_use_site)
                              (imported in_use_site [''f'', ''y''])) \<and>
   get_subnet_used_list in_use_site ''10.0.1.0/24'' \<noteq> [] \<and>
   ''y'' \<in> set [''f'', ''y''] \<and>
   raised (opt_import in_use_site [''f'', ''y'']) \<noteq> None \<and>
   requests (final (opt_import in_use_site [''f'', ''y''])) = []"
proof -
  have h1: "''10.0.1.0/24'' \<in> set (subnets_delete (current_subnets in_use_site)
                              (imported in_use_site [''f'', ''y'']))"
    by (simp add: run_defs in_use_site_def office_file_def office_observed_def)
  have h2: "get_subnet_used_list in_use_site ''10.0.1.0/24'' \<noteq> []"
    by (simp add: in_use_site_def)
  from in_use_delete_rejected [OF h1 h2] h1 h2 show ?thesis by simp
qed

text \<open>
  Claim C10. When a range that is to delete has a non-empty list of used addresses, the
  run ends with the TypeError of \<^verbatim>\<open>subnet['range']\<close> in line 1146. The state at the
  exception is the state in which the file had been read, with \<^verbatim>\<open>ERROR\<close> set: the log
  holds what the reading wrote and no line about the subnet, and no request has been
  issued.
\<close>

theorem in_use_guard_type_error:
  assumes "k \<in> set (subnets_delete (current_subnets env) (imported env args))"
    and "get_subnet_used_list env k \<noteq> []"
  shows "opt_import env args = Inl (TypeError, (after_read env args)\<lparr>ERROR := True\<rparr>) \<and>
         log_file (final (opt_import env args)) = log_file (after_read env args) \<and>
         raised (opt_import env args) = Some TypeError"
proof -
  let ?s0 = "after_read env args"
  have s0: "subnets_patch ?s0 = []" "ERROR ?s0 = False" "import_data ?s0 = imported env args"
    using after_read_frame [of env args] by simp_all
  from assms have "\<exists>k\<in>set (subnets_delete (current_subnets env) (imported env args)).
      get_subnet_used_list env k \<noteq> []"
    by blast
  then have "opt_import env args = Inl (TypeError, ?s0\<lparr>ERROR := True\<rparr>)"
    by (simp add: opt_import_reconcile reconcile_def Let_def s0 checks_cases [OF s0] and_then_def)
  then show ?thesis
    by (simp add: raised_def final_def)
qed

theorem in_use_guard_type_error_witness:
  "''10.0.1.0/24'' \<in> set (subnets_delete (current_subnets in_use_site)
                              (imported in_use_site [''f''])) \<and>
   get_subnet_used_list in_use_site ''10.0.1.0/24'' \<noteq> [] \<and>
   raised (opt_import in_use_site [''f'']) = Some TypeError \<and>
   log_file (final (opt_import in_use_site [''f''])) =
     [''------ READ FROM f START ------'' @ nl,
      ''3: Invalid tag unknowntag. Valid tags can be found in tags'' @ nl,
      ''------ READ FROM f END ------'' @ nl]"
proof -
  have h1: "''10.0.1.0/24'' \<in> set (subnets_delete (current_subnets in_use_site)
                              (imported in_use_site [''f'']))"
    by (simp add: run_defs in_use_site_def office_file_def office_observed_def)
  have h2: "get_subnet_used_list in_use_site ''10.0.1.0/24'' \<noteq> []"
    by (simp add: in_use_site_def)
  have l: "log_file (after_read in_use_site [''f'']) =
     [''------ READ FROM f START ------'' @ nl,
      ''3: Invalid tag unknowntag. Valid tags can be found in tags'' @ nl,
      ''------ READ FROM f END ------'' @ nl]"
    by (simp add: run_defs in_use_site_def office_file_def office_observed_def str_nat.simps)
  from in_use_guard_type_error [OF h1 h2, THEN conjunct2] h1 h2 l show ?thesis by simp
qed


subsection \<open>The exceptions of the request loops\<close>

lemma for_loop_raised:
  "for_loop body ks s = Inl (e, s') \<Longrightarrow> \<exists>k s0. body k s0 = Inl (e, s')"
proof (induction ks arbitrary: s)
  case Nil
  then show ?case by simp
next
  case (Cons k ks)
  show ?case
  proof (cases "body k s")
    case (Inl p)
    with Cons.prems show ?thesis by auto
  next
    case (Inr s1)
    with Cons.prems have "for_loop body ks s1 = Inl (e, s')" by simp
    then show ?thesis by (rule Cons.IH)
  qed
qed

lemma delete_body_raised: "delete_body env k s = Inl (e, s') \<Longrightarrow> request_error e"
  by (auto simp: delete_body_def send_def Let_def request_error_def split: if_splits)

lemma post_body_raised: "post_body env k s = Inl (e, s') \<Longrightarrow> request_error e"
  by (auto simp: post_body_def send_def getitem_def Let_def request_error_def
      split: if_splits option.splits)

lemma patch_body_raised: "patch_body env k s = Inl (e, s') \<Longrightarrow> request_error e"
  by (auto simp: patch_body_def send_def getitem_def Let_def request_error_def
      split: if_splits option.splits)

lemma execute_raised: "execute env dels posts s = Inl (e, s') \<Longrightarrow> request_error e"
  unfolding execute_def and_then_def
  by (auto split: sum.splits
      dest!: for_loop_raised delete_body_raised post_body_raised patch_body_raised)


subsection \<open>The threshold of one fifth\<close>

lemma opt_import_checked:
  assumes "list_all (\<lambda>k. get_subnet_used_list env k = [])
             (subnets_delete (current_subnets env) (imported env args))"
    and "list_all (\<lambda>k. ip_network env k \<noteq> None)
           (subnets_post (current_subnets env) (imported env args))"
  shows "opt_import env args =
     and_then
       (force_check args (current_subnets env)
          (subnets_delete (current_subnets env) (imported env args))
          ((after_read env args)
             \<lparr>subnets_patch := plan_patch (current_subnets env) (imported env args)\<rparr>))
       (execute env (subnets_delete (current_subnets env) (imported env args))
          (subnets_post (current_subnets env) (imported env args)))"
proof -
  let ?s0 = "after_read env args"
  have s0: "subnets_patch ?s0 = []" "ERROR ?s0 = False" "import_data ?s0 = imported env args"
    using after_read_frame [of env args] by simp_all
  have a: "\<not> (\<exists>k\<in>set (subnets_delete (current_subnets env) (imported env args)).
              get_subnet_used_list env k \<noteq> [])"
    using assms(1) by (simp add: list_all_iff)
  have b: "find (\<lambda>k. ip_network env k = None)
             (subnets_post (current_subnets env) (imported env args)) = None"
    using assms(2) by (simp add: list_all_iff find_None_iff)
  show ?thesis
    by (simp add: opt_import_reconcile reconcile_def Let_def s0 checks_cases [OF s0] a b)
qed




subsection \<open>An empty inventory\<close>

lemma empty_inventory_raises:
  assumes "res env = []"
    and "list_all (\<lambda>k. ip_network env k \<noteq> None)
           (subnets_post (current_subnets env) (imported env args))"
  shows "opt_import env args =
           Inl (ZeroDivisionError,
                (after_read env args)
                  \<lparr>subnets_patch := plan_patch (current_subnets env) (imported env args)\<rparr>)"
proof -
  have k: "keys (current_subnets env) = []"
    using assms(1) by (simp add: current_subnets_empty)
  then have "subnets_delete (current_subnets env) (imported env args) = []"
    by (simp add: subnets_delete_def)
  then have "list_all (\<lambda>k. get_subnet_used_list env k = [])
               (subnets_delete (current_subnets env) (imported env args))"
    by simp
  from opt_import_checked [OF this assms(2)] k show ?thesis
    by (simp add: force_check_def and_then_def)
qed

text \<open>
  Claim C5, on the code. The server has no subnet and the file defines two. The division
  of line 1169 raises ZeroDivisionError, without the force flag and with it, and no
  request is issued: the ratio is not taken as 0 and the import does not proceed.
\<close>

theorem empty_inventory_division_error:
  "raised (opt_import (site nested_file []) [''f'']) = Some ZeroDivisionError \<and>
   requests (final (opt_import (site nested_file []) [''f''])) = [] \<and>
   raised (opt_import (site nested_file []) [''f'', ''y'']) = Some ZeroDivisionError \<and>
   requests (final (opt_import (site nested_file []) [''f'', ''y''])) = []"
  by (simp add: run_defs nested_file_def)

subsection \<open>The overlap check\<close>

text \<open>
  The loop of lines 1149 to 1154 runs when \<^verbatim>\<open>subnets_patch\<close> is still empty, so it
  records nothing; \<^verbatim>\<open>ERROR\<close> is set only together with the TypeError of line 1146.
  Hence no run ends with the warning of line 1167.
\<close>

lemma setup_warning_unreachable:
  "raised (opt_import env args) \<noteq>
     Some (CliWarning ''Errors detected during setup. Check subnets_import.log for details'')"
proof
  let ?msg = "''Errors detected during setup. Check subnets_import.log for details''"
  let ?s0 = "after_read env args"
  let ?cur = "current_subnets env"
  let ?imp = "imported env args"
  assume "raised (opt_import env args) = Some (CliWarning ?msg)"
  then obtain s' where r: "opt_import env args = Inl (CliWarning ?msg, s')"
    by (auto simp: raised_def split: sum.splits)
  have s0: "subnets_patch ?s0 = []" "ERROR ?s0 = False" "import_data ?s0 = ?imp"
    using after_read_frame [of env args] by simp_all
  let ?c = "checks env args ?cur (subnets_delete ?cur ?imp) (subnets_post ?cur ?imp)
              (subnets_ignore ?cur ?imp) ?s0"
  have run: "opt_import env args =
      and_then ?c (execute env (subnets_delete ?cur ?imp) (subnets_post ?cur ?imp))"
    by (simp add: opt_import_reconcile reconcile_def Let_def s0)
  show False
  proof (cases ?c)
    case (Inl p)
    with run r have "?c = Inl (CliWarning ?msg, s')"
      by (simp add: and_then_def)
    then show False
      by (simp add: checks_cases [OF s0] force_check_def cli_warning_def
          split: if_splits option.splits)
  next
    case (Inr s1)
    with run r have "execute env (subnets_delete ?cur ?imp) (subnets_post ?cur ?imp) s1
                       = Inl (CliWarning ?msg, s')"
      by (simp add: and_then_def)
    from execute_raised [OF this] show False
      by (simp add: request_error_def)
  qed
qed

text \<open>
  Claim C2, on the code. The server has \<^verbatim>\<open>10.0.0.0/16\<close>; the file keeps it unchanged
  and defines the new subnet \<^verbatim>\<open>10.0.2.0/24\<close>. Both strings are networks and the two
  networks overlap, yet the run ends without an exception, with \<^verbatim>\<open>ERROR\<close> unset and no
  line about an overlap in the log, and the POST that creates \<^verbatim>\<open>10.0.2.0/24\<close> is
  issued.
\<close>

theorem overlap_guard_silent:
  "ipv4_network ''10.0.0.0/16'' = Some (167772160, 16) \<and>
   ipv4_network ''10.0.2.0/24'' = Some (167772672, 24) \<and>
   ipv4_overlaps (167772672, 24) (167772160, 16) \<and>
   subnets_post (current_subnets (site nested_file nested_observed))
     (imported (site nested_file nested_observed) [''f'']) = [''10.0.2.0/24''] \<and>
   raised (opt_import (site nested_file nested_observed) [''f'']) = None \<and>
   ERROR (final (opt_import (site nested_file nested_observed) [''f''])) = False \<and>
   log_file (final (opt_import (site nested_file nested_observed) [''f''])) =
     [''------ READ FROM f START ------'' @ nl,
      ''------ READ FROM f END ------'' @ nl,
      ''------ API REQUESTS START ------'' @ nl,
      ''POST http://h:80/subnets/ - 10.0.2.0/24'' @ nl] \<and>
   requests (final (opt_import (site nested_file nested_observed) [''f''])) =
     [POST ''http://h:80/subnets/''
        [(''range'', PyStr ''10.0.2.0/24''), (''description'', PyStr ''net''),
         (''vlan'', PyInt 0), (''category'', PyNone), (''location'', PyStr ''oslo''),
         (''frozen'', PyBool False)]]"
  by (simp add: run_defs nested_file_def nested_observed_def ipv4_overlaps_def ipv4_contains_def)


subsection \<open>The fields of an update\<close>

lemma not_raised: "raised r = None \<Longrightarrow> r = Inr (final r)"
  by (cases r) (auto simp: raised_def final_def)

lemma url_subnets_inject: "url_subnets env k = url_subnets env k' \<longleftrightarrow> k = k'"
  by (simp add: url_subnets_def)

text \<open>
  Claim C6 as the specification states it fails. The server has \<^verbatim>\<open>10.0.0.0/24\<close> with
  the description \<^verbatim>\<open>net\<close>, the file gives it the description \<^verbatim>\<open>core\<close> and leaves
  the VLAN, the category and the location as they are. The changed subset of the fields
  is the description alone, but the PATCH that the run issues carries the four fields.
\<close>

theorem patch_changed_subset_counterexample:
  "changed_subset (plain ''10.0.0.0/24'' (Some ''oslo'')\<lparr>description := ''core''\<rparr>)
     (plain ''10.0.0.0/24'' (Some ''oslo'')) = [(''description'', PyStr ''core'')] \<and>
   requests (final (opt_import (site renamed_file renamed_observed) [''f'', ''y''])) =
     [PATCH ''http://h:80/subnets/10.0.0.0/24''
        [(''description'', PyStr ''core''), (''vlan'', PyInt 0), (''category'', PyNone),
         (''location'', PyStr ''oslo'')]] \<and>
   PATCH ''http://h:80/subnets/10.0.0.0/24''
     (changed_subset (plain ''10.0.0.0/24'' (Some ''oslo'')\<lparr>description := ''core''\<rparr>)
        (plain ''10.0.0.0/24'' (Some ''oslo'')))
     \<notin> set (requests (final (opt_import (site renamed_file renamed_observed) [''f'', ''y''])))"
  by (simp add: run_defs renamed_file_def renamed_observed_def changed_subset_def)

text \<open>
  Claim C6, amended. For every range in \<^verbatim>\<open>subnets_patch\<close> of a run that ends without
  an exception, the run has issued a PATCH to the URL of the range whose keyword arguments
  are the four fields description, vlan, category and location, each with the value of
  the record from the file, whether that value differs from the server's or not; and a
  PATCH to this URL with other keyword arguments has not been issued.
\<close>

theorem patch_carries_all_fields:
  assumes "opt_import env args = Inr s" and "k \<in> set (subnets_patch s)"
  shows "\<exists>new. map_of (import_data s) k = Some new \<and>
           PATCH (url_subnets env k)
             [(''description'', PyStr (description new)), (''vlan'', py_int (vlan new)),
              (''category'', py_str (category new)), (''location'', py_str (location new))]
             \<in> set (requests s) \<and>
           (\<forall>kw. PATCH (url_subnets env k) kw \<in> set (requests s) \<longrightarrow>
              kw = [(''description'', PyStr (description new)), (''vlan'', py_int (vlan new)),
                    (''category'', py_str (category new)), (''location'', py_str (location new))])"
proof -
  let ?cur = "current_subnets env"
  let ?imp = "imported env args"
  from run_requests [of env args] assms(1)
  have imp: "import_data s = ?imp" and u: "subnets_patch s = plan_patch ?cur ?imp"
    and r: "requests s = plan_requests env ?imp (subnets_delete ?cur ?imp)
                           (subnets_post ?cur ?imp) (plan_patch ?cur ?imp)"
    by simp_all
  from assms(2) u have k: "k \<in> set (plan_patch ?cur ?imp)" by simp
  then have "k \<in> set (keys ?imp)" by (simp add: set_plan_patch)
  then obtain new where new: "map_of ?imp k = Some new"
    using key_lookup by blast
  let ?patch = "\<lambda>k. PATCH (url_subnets env k) (patch_kwargs (the (map_of ?imp k)))"
  have mem: "PATCH u kw \<in> set (requests s) \<longleftrightarrow> PATCH u kw \<in> ?patch ` set (plan_patch ?cur ?imp)"
    for u kw
    unfolding r plan_requests_def by (simp add: image_iff)
  have "?patch k \<in> ?patch ` set (plan_patch ?cur ?imp)"
    using k by (rule imageI)
  then have a: "PATCH (url_subnets env k) (patch_kwargs new) \<in> set (requests s)"
    by (simp only: mem new option.sel)
  have b: "kw = patch_kwargs new" if "PATCH (url_subnets env k) kw \<in> set (requests s)" for kw
  proof -
    from that have "PATCH (url_subnets env k) kw \<in> ?patch ` set (plan_patch ?cur ?imp)"
      by (simp only: mem)
    then obtain k' where "PATCH (url_subnets env k) kw = ?patch k'"
      by (rule imageE)
    then have "url_subnets env k = url_subnets env k'"
      and kw: "kw = patch_kwargs (the (map_of ?imp k'))"
      by simp_all
    then have "k' = k" by (simp add: url_subnets_inject)
    with kw new show ?thesis by simp
  qed
  show ?thesis
    unfolding patch_kwargs_def [symmetric] imp
    using new a b by blast
qed

theorem patch_carries_all_fields_witness:
  "raised (opt_import (site five_file five_observed) [''f'']) = None \<and>
   ''10.0.0.0/24'' \<in> set (subnets_patch (final (opt_import (site five_file five_observed) [''f'']))) \<and>
   map_of (import_data (final (opt_import (site five_file five_observed) [''f''])))
     ''10.0.0.0/24'' = Some (plain ''10.0.0.0/24'' (Some ''oslo'')\<lparr>description := ''core''\<rparr>) \<and>
   PATCH (url_subnets (site five_file five_observed) ''10.0.0.0/24'')
     [(''description'', PyStr ''core''), (''vlan'', PyInt 0), (''category'', PyNone),
      (''location'', PyStr ''oslo'')]
     \<in> set (requests (final (opt_import (site five_file five_observed) [''f''])))"
proof -
  let ?env = "site five_file five_observed"
  have ok: "raised (opt_import ?env [''f'']) = None"
    by (simp add: run_defs five_file_def five_observed_def)
  have s: "opt_import ?env [''f''] = Inr (final (opt_import ?env [''f'']))"
    by (rule not_raised [OF ok])
  have k: "''10.0.0.0/24'' \<in> set (subnets_patch (final (opt_import ?env [''f''])))"
    by (simp add: run_defs five_file_def five_observed_def)
  have m: "map_of (import_data (final (opt_import ?env [''f''])))
     ''10.0.0.0/24'' = Some (plain ''10.0.0.0/24'' (Some ''oslo'')\<lparr>description := ''core''\<rparr>)"
    by (simp add: run_defs five_file_def five_observed_def)
  from patch_carries_all_fields [OF s k] obtain new
    where "map_of (import_data (final (opt_import ?env [''f''])))  ''10.0.0.0/24'' = Some new"
      and p: "PATCH (url_subnets ?env ''10.0.0.0/24'')
             [(''description'', PyStr (description new)), (''vlan'', py_int (vlan new)),
              (''category'', py_str (category new)), (''location'', py_str (location new))]
             \<in> set (requests (final (opt_import ?env [''f''])))"
    by blast
  with m have "new = plain ''10.0.0.0/24'' (Some ''oslo'')\<lparr>description := ''core''\<rparr>"
    by simp
  with p have "PATCH (url_subnets ?env ''10.0.0.0/24'')
     [(''description'', PyStr ''core''), (''vlan'', PyInt 0), (''category'', PyNone),
      (''location'', PyStr ''oslo'')] \<in> set (requests (final (opt_import ?env [''f''])))"
    by (simp add: plain_def py_int_def py_str_def)
  with ok k m show ?thesis by blast
qed


subsection \<open>The tags of a line\<close>








lemma numbered_nth: "i < length ls \<Longrightarrow> numbered ls ! i = (Suc i, ls ! i)"
  by (simp add: numbered_def nth_upt del: upt_Suc)



end
